theory Spec2Isabelle
  imports Complex_Main
begin

section \<open>The order book reducer (src/state/reducers/orderBook.reducer.ts)\<close>

text \<open>
  A shallow embedding of the reducer. Conventions:
  \<^item> a JavaScript \<open>number\<close> holding a size or a total is a value of a type \<open>'n\<close> of which
    only a zero, an addition and a linear order are used, and nothing is assumed of the
    addition: it need not be associative or exact. The statements therefore hold of the
    addition of IEEE doubles, which rounds, as of every other (\<open>NaN\<close> is not modelled).
    The examples are evaluated on \<open>real\<close>, with small integers, whose sums doubles
    represent exactly;
  \<^item> a price is only compared and used as a key, never added, and comparing doubles is
    exact: prices are \<open>real\<close>;
  \<^item> a \<open>number\<close> used as a row index is an \<open>int\<close>;
  \<^item> a JavaScript \<open>Map\<close> is the list of its entries in insertion order, which is the
    order in which \<open>entries()\<close> and \<open>values()\<close> iterate;
  \<^item> \<open>Array.prototype.sort\<close> with a comparator is a stable sort;
  \<^item> a thrown exception is the \<open>Inl\<close> branch of a sum;
  \<^item> \<open>console.debug\<close> has no effect on the state and is left out.
\<close>

subsection \<open>Data\<close>

type_synonym Price = real
type_synonym 'n Size = 'n
type_synonym 'n Total = 'n
type_synonym ProductId = string

record 'n RawDetails =
  price :: Price
  size_d :: "'n Size"

record 'n CalculatedOrderDetails = "'n RawDetails" +
  total_d :: "'n Total"

datatype 'n OrderDetails = Raw "'n RawDetails" | Calculated "'n CalculatedOrderDetails"

text \<open>The field \<open>size\<close> that both variants of \<open>OrderDetails\<close> carry.\<close>

fun size_of :: "'n OrderDetails \<Rightarrow> 'n Size" where
  "size_of (Raw r) = size_d r"
| "size_of (Calculated c) = size_d c"

type_synonym ('k, 'v) JSMap = "('k \<times> 'v) list"

record 'n MaxTotal =
  lastVisibleAsksIndex :: int
  lastVisibleBidsIndex :: int
  totalValue :: 'n

record 'n Connected =
  asks :: "(Price, 'n CalculatedOrderDetails) JSMap"
  bids :: "(Price, 'n CalculatedOrderDetails) JSMap"
  productId :: ProductId
  numLevels :: int
  maxTotal :: "'n MaxTotal"

text \<open>
  The four variants of \<open>OrderBookState\<close>. \<open>Connected\<close> and \<open>Disconnected\<close> carry the same
  fields, which \<open>stateFields\<close> reads once the variant is known.
\<close>

datatype 'n OrderBookState =
    NeverLoaded
  | ConnectedWaitingForData
  | Connected (stateFields: "'n Connected")
  | Disconnected (stateFields: "'n Connected")

text \<open>The test \<open>prevState.type === 'Connected'\<close>.\<close>

fun isConnected :: "'n OrderBookState \<Rightarrow> bool" where
  "isConnected (Connected c) = True"
| "isConnected s = False"

record 'n SnapshotPayload =
  snap_product_id :: ProductId
  snap_numLevels :: int
  snap_asks :: "(Price \<times> 'n Size) list"
  snap_bids :: "(Price \<times> 'n Size) list"

record 'n DataUpdatePayload =
  upd_asks :: "(Price \<times> 'n Size) list"
  upd_bids :: "(Price \<times> 'n Size) list"

datatype 'n OrderBookActions =
    OpenStream
  | CloseStream
  | SnapshotReceived "'n SnapshotPayload"
  | DataUpdate "'n DataUpdatePayload"
  | SocketConnected
  | SocketDisconnected
  | UpdateBidsLastVisibleIndex int
  | UpdateAsksLastVisibleIndex int
  | UnsupportedBackendResponse
  | InfoReceived
  | SubscribeConfirmationReceived

datatype error = AssertionError | TypeError

definition initialState :: "'n OrderBookState" where
  "initialState = NeverLoaded"

subsection \<open>The JavaScript containers the reducer uses\<close>

text \<open>\<open>Map.prototype.set\<close>: an existing key keeps its position, a new key goes last.\<close>

fun Map_set :: "'k \<Rightarrow> 'v \<Rightarrow> ('k, 'v) JSMap \<Rightarrow> ('k, 'v) JSMap" where
  "Map_set k v [] = [(k, v)]"
| "Map_set k v ((k', v') # m) =
     (if k' = k then (k, v) # m else (k', v') # Map_set k v m)"

text \<open>\<open>Map.prototype.delete\<close>.\<close>

fun Map_delete :: "'k \<Rightarrow> ('k, 'v) JSMap \<Rightarrow> ('k, 'v) JSMap" where
  "Map_delete k [] = []"
| "Map_delete k ((k', v') # m) =
     (if k' = k then Map_delete k m else (k', v') # Map_delete k m)"

text \<open>\<open>new Map(iterable)\<close>: the entries are set one after the other.\<close>

definition Map_new :: "('k \<times> 'v) list \<Rightarrow> ('k, 'v) JSMap" where
  "Map_new es = foldl (\<lambda>m (k, v). Map_set k v m) [] es"

definition Map_size :: "('k, 'v) JSMap \<Rightarrow> int" where
  "Map_size m = int (length m)"

definition Map_values :: "('k, 'v) JSMap \<Rightarrow> 'v list" where
  "Map_values m = map snd m"

definition Map_entries :: "('k, 'v) JSMap \<Rightarrow> ('k \<times> 'v) list" where
  "Map_entries m = m"

definition Map_has :: "'k \<Rightarrow> ('k, 'v) JSMap \<Rightarrow> bool" where
  "Map_has k m = (k \<in> set (map fst m))"

text \<open>
  \<open>arr[i]\<close>: \<open>None\<close> stands for \<open>undefined\<close>, which is what JavaScript yields for an
  index below 0 or beyond the last element.
\<close>

definition Array_at :: "'a list \<Rightarrow> int \<Rightarrow> 'a option" where
  "Array_at xs i = (if 0 \<le> i \<and> i < int (length xs) then Some (xs ! nat i) else None)"

text \<open>\<open>x.total\<close>: reading a property of \<open>undefined\<close> throws a \<open>TypeError\<close>.\<close>

definition read_total :: "'n CalculatedOrderDetails option \<Rightarrow> error + 'n Total" where
  "read_total v = (case v of None \<Rightarrow> Inl TypeError | Some d \<Rightarrow> Inr (total_d d))"

text \<open>
  \<open>xs.sort(([priceA], [priceB]) => priceA - priceB)\<close> and its mirror image
  \<open>priceB - priceA\<close>: stable sorts by ascending and by descending key.
\<close>

definition sort_ascending :: "(Price \<times> 'v) list \<Rightarrow> (Price \<times> 'v) list" where
  "sort_ascending xs = sort_key fst xs"

definition sort_descending :: "(Price \<times> 'v) list \<Rightarrow> (Price \<times> 'v) list" where
  "sort_descending xs = sort_key (\<lambda>e. - fst e) xs"

subsection \<open>Helpers imported from types/util.types\<close>

text \<open>
  Modelled from the spec: \<open>assert\<close>, \<open>asNumber\<close> and \<open>asTotal\<close> are imported from
  \<open>types/util.types\<close>, which is not among the sources. The spec calls a failed
  precondition an assert-fail surfaced as an explicit error, so \<open>assert\<close> raises
  \<open>AssertionError\<close> when its condition is false; \<open>asNumber\<close> and \<open>asTotal\<close> convert
  between the branded number types \<open>Size\<close>, \<open>number\<close> and \<open>Total\<close> and change no value.
\<close>

definition assert :: "bool \<Rightarrow> error + unit" where
  "assert b = (if b then Inr () else Inl AssertionError)"

definition asNumber :: "'n Size \<Rightarrow> 'n" where
  "asNumber s = s"

definition asTotal :: "'n \<Rightarrow> 'n Total" where
  "asTotal t = t"

subsection \<open>The level aggregator\<close>

text \<open>
  The accumulator of the two reducing functions. Its \<open>+=\<close> is the addition of \<open>'n\<close>; the
  running sum starts at 0 and grows by one addition for each pair of non-zero size, in the
  order of traversal.
\<close>

record 'n Acc =
  total_acc :: 'n
  map_acc :: "(Price, 'n CalculatedOrderDetails) JSMap"

definition generateCalculatedOrderDetails ::
    "('n::{zero,plus}) Acc \<Rightarrow> Price \<times> 'n Size \<Rightarrow> 'n Acc" where
  "generateCalculatedOrderDetails acc e =
     (case e of (p, s) \<Rightarrow>
        if s = 0 then acc
        else
          let t = total_acc acc + asNumber s
          in \<lparr>total_acc = t,
              map_acc = Map_set p \<lparr>price = p, size_d = s, total_d = asTotal t\<rparr> (map_acc acc)\<rparr>)"

definition generateCalculatedOrderDetailsFromExisting ::
    "('n::{zero,plus}) Acc \<Rightarrow> Price \<times> 'n OrderDetails \<Rightarrow> 'n Acc" where
  "generateCalculatedOrderDetailsFromExisting acc e =
     (case e of (p, v) \<Rightarrow>
        if size_of v = 0 then acc
        else
          let t = total_acc acc + asNumber (size_of v)
          in \<lparr>total_acc = t,
              map_acc =
                Map_set p \<lparr>price = p, size_d = size_of v, total_d = asTotal t\<rparr> (map_acc acc)\<rparr>)"

subsection \<open>The transition handlers\<close>

definition handleSnapshotReceived ::
    "('n::{zero,plus,linorder}) SnapshotPayload \<Rightarrow> 'n OrderBookState \<Rightarrow> 'n OrderBookState" where
  "handleSnapshotReceived payload prevState =
     (let a = foldl generateCalculatedOrderDetails \<lparr>total_acc = 0, map_acc = []\<rparr>
                (sort_ascending (snap_asks payload));
          b = foldl generateCalculatedOrderDetails \<lparr>total_acc = 0, map_acc = []\<rparr>
                (sort_descending (snap_bids payload))
      in Connected
           \<lparr>asks = map_acc a,
            bids = map_acc b,
            productId = snap_product_id payload,
            numLevels = snap_numLevels payload,
            maxTotal =
              (if isConnected prevState
               then (maxTotal (stateFields prevState))
                      \<lparr>totalValue := max (total_acc a) (total_acc b)\<rparr>
               else
                 \<lparr>lastVisibleAsksIndex = Map_size (map_acc a) - 1,
                  lastVisibleBidsIndex = Map_size (map_acc b) - 1,
                  totalValue = max (total_acc a) (total_acc b)\<rparr>)\<rparr>)"

text \<open>
  The expression both \<open>handleDataUpdate\<close> and \<open>handleLastVisibleItemIndexChange\<close>
  evaluate for \<open>totalValue\<close>: the bids operand is evaluated first.
\<close>

definition visibleTotal ::
    "(Price, 'n CalculatedOrderDetails) JSMap \<Rightarrow> int \<Rightarrow> error + 'n Total" where
  "visibleTotal m i = read_total (Array_at (Map_values m) (min i (Map_size m - 1)))"

definition maxVisibleTotal ::
    "(Price, ('n::linorder) CalculatedOrderDetails) JSMap \<Rightarrow> int \<Rightarrow>
     (Price, 'n CalculatedOrderDetails) JSMap \<Rightarrow> int \<Rightarrow> error + 'n" where
  "maxVisibleTotal bs bi as ai =
     (case visibleTotal bs bi of
        Inl e \<Rightarrow> Inl e
      | Inr tb \<Rightarrow>
          (case visibleTotal as ai of
             Inl e \<Rightarrow> Inl e
           | Inr ta \<Rightarrow> Inr (max tb ta)))"

text \<open>
  The \<open>forEach\<close> over \<open>payload.asks\<close> deletes a price of size 0 and sets any other; the
  one over \<open>payload.bids\<close> returns on size 0 without deleting.
\<close>

definition mergeAsks ::
    "(Price, ('n::zero) OrderDetails) JSMap \<Rightarrow> (Price \<times> 'n Size) list \<Rightarrow>
     (Price, 'n OrderDetails) JSMap" where
  "mergeAsks tmp ds =
     foldl (\<lambda>m (p, s). if s = 0 then Map_delete p m
                        else Map_set p (Raw \<lparr>price = p, size_d = s\<rparr>) m) tmp ds"

definition mergeBids ::
    "(Price, ('n::zero) OrderDetails) JSMap \<Rightarrow> (Price \<times> 'n Size) list \<Rightarrow>
     (Price, 'n OrderDetails) JSMap" where
  "mergeBids tmp ds =
     foldl (\<lambda>m (p, s). if s = 0 then m
                        else Map_set p (Raw \<lparr>price = p, size_d = s\<rparr>) m) tmp ds"

text \<open>
  In the three handlers below, \<open>assert(prevState.type === 'Connected')\<close> comes first; what
  follows reads the fields of \<open>prevState\<close>, which the assertion has narrowed to
  \<open>Connected\<close>. The two loops over the payload are \<open>mergeAsks\<close> and \<open>mergeBids\<close>.
\<close>

definition handleDataUpdate ::
    "('n::{zero,plus,linorder}) DataUpdatePayload \<Rightarrow> 'n OrderBookState \<Rightarrow>
     error + 'n OrderBookState" where
  "handleDataUpdate payload prevState =
     (case assert (isConnected prevState) of
        Inl e \<Rightarrow> Inl e
      | Inr _ \<Rightarrow>
          (let c = stateFields prevState;
               asksTmp = mergeAsks (Map_new (map (\<lambda>(k, v). (k, Calculated v)) (asks c)))
                           (upd_asks payload);
               asks' = map_acc (foldl generateCalculatedOrderDetailsFromExisting
                                  \<lparr>total_acc = 0, map_acc = []\<rparr>
                                  (sort_ascending (Map_entries asksTmp)));
               bidsTmp = mergeBids (Map_new (map (\<lambda>(k, v). (k, Calculated v)) (bids c)))
                           (upd_bids payload);
               bids' = map_acc (foldl generateCalculatedOrderDetailsFromExisting
                                  \<lparr>total_acc = 0, map_acc = []\<rparr>
                                  (sort_descending (Map_entries bidsTmp)))
           in case maxVisibleTotal bids' (lastVisibleBidsIndex (maxTotal c))
                     asks' (lastVisibleAsksIndex (maxTotal c)) of
                Inl e \<Rightarrow> Inl e
              | Inr t \<Rightarrow>
                  Inr (Connected (c\<lparr>asks := asks', bids := bids',
                                    maxTotal := (maxTotal c)\<lparr>totalValue := t\<rparr>\<rparr>))))"

definition handleLastVisibleItemIndexChange ::
    "int \<Rightarrow> int \<Rightarrow> ('n::linorder) Connected \<Rightarrow> error + 'n OrderBookState" where
  "handleLastVisibleItemIndexChange bidsIndex asksIndex prevState =
     (case maxVisibleTotal (bids prevState) bidsIndex (asks prevState) asksIndex of
        Inl e \<Rightarrow> Inl e
      | Inr t \<Rightarrow>
          Inr (Connected (prevState\<lparr>maxTotal :=
                 \<lparr>lastVisibleAsksIndex = asksIndex,
                  lastVisibleBidsIndex = bidsIndex,
                  totalValue = t\<rparr>\<rparr>)))"

definition handleUpdateLastVisibleBidsIndexChange ::
    "int \<Rightarrow> ('n::linorder) OrderBookState \<Rightarrow> error + 'n OrderBookState" where
  "handleUpdateLastVisibleBidsIndexChange bidsIndex prevState =
     (case assert (isConnected prevState) of
        Inl e \<Rightarrow> Inl e
      | Inr _ \<Rightarrow>
          handleLastVisibleItemIndexChange bidsIndex
            (lastVisibleAsksIndex (maxTotal (stateFields prevState))) (stateFields prevState))"

definition handleUpdateLastVisibleAsksIndexChange ::
    "int \<Rightarrow> ('n::linorder) OrderBookState \<Rightarrow> error + 'n OrderBookState" where
  "handleUpdateLastVisibleAsksIndexChange asksIndex prevState =
     (case assert (isConnected prevState) of
        Inl e \<Rightarrow> Inl e
      | Inr _ \<Rightarrow>
          handleLastVisibleItemIndexChange
            (lastVisibleBidsIndex (maxTotal (stateFields prevState))) asksIndex (stateFields prevState))"

subsection \<open>The reducer\<close>

fun orderBookReducer_inner ::
    "('n::{zero,plus,linorder}) OrderBookState \<Rightarrow> 'n OrderBookActions \<Rightarrow>
     error + 'n OrderBookState" where
  "orderBookReducer_inner previousState OpenStream = Inr previousState"
| "orderBookReducer_inner previousState CloseStream = Inr previousState"
| "orderBookReducer_inner previousState (SnapshotReceived payload) =
     Inr (handleSnapshotReceived payload previousState)"
| "orderBookReducer_inner previousState (DataUpdate payload) =
     handleDataUpdate payload previousState"
| "orderBookReducer_inner previousState SocketConnected = Inr previousState"
| "orderBookReducer_inner previousState SocketDisconnected = Inr previousState"
| "orderBookReducer_inner previousState (UpdateBidsLastVisibleIndex i) =
     handleUpdateLastVisibleBidsIndexChange i previousState"
| "orderBookReducer_inner previousState (UpdateAsksLastVisibleIndex i) =
     handleUpdateLastVisibleAsksIndexChange i previousState"
| "orderBookReducer_inner previousState UnsupportedBackendResponse = Inr previousState"
| "orderBookReducer_inner previousState InfoReceived = Inr previousState"
| "orderBookReducer_inner previousState SubscribeConfirmationReceived = Inr previousState"

text \<open>
  The exported reducer: an \<open>undefined\<close> previous state (\<open>None\<close>) takes the default
  \<open>initialState\<close>. Every branch of the inner reducer returns a state or throws, so the
  \<open>?? initialState\<close> of the source never applies.
\<close>

definition orderBookReducer ::
    "('n::{zero,plus,linorder}) OrderBookState option \<Rightarrow> 'n OrderBookActions \<Rightarrow>
     error + 'n OrderBookState" where
  "orderBookReducer previousState action =
     orderBookReducer_inner
       (case previousState of None \<Rightarrow> initialState | Some s \<Rightarrow> s) action"

text \<open>Running a sequence of actions; the first exception ends the run.\<close>

fun run ::
    "('n::{zero,plus,linorder}) OrderBookState \<Rightarrow> 'n OrderBookActions list \<Rightarrow>
     error + 'n OrderBookState" where
  "run s [] = Inr s"
| "run s (a # as) =
     (case orderBookReducer (Some s) a of Inl e \<Rightarrow> Inl e | Inr s' \<Rightarrow> run s' as)"

subsection \<open>What the specification says, for comparison\<close>

text \<open>
  The scale of the specification (section 4.3), in its own words: each cursor is clamped
  to \<open>min(index, collectionSize - 1)\<close>, the total at the clamped row is read, an empty
  side contributes 0, and the scale is the maximum of the two.
\<close>

definition spec_totalAt ::
    "(Price, ('n::zero) CalculatedOrderDetails) JSMap \<Rightarrow> int \<Rightarrow> 'n Total" where
  "spec_totalAt m i =
     (if m = [] then 0 else total_d (snd (m ! nat (min i (int (length m) - 1)))))"

definition spec_computeScale ::
    "(Price, ('n::{zero,linorder}) CalculatedOrderDetails) JSMap \<Rightarrow>
     (Price, 'n CalculatedOrderDetails) JSMap \<Rightarrow> int \<Rightarrow> int \<Rightarrow> 'n" where
  "spec_computeScale as bs ai bi = max (spec_totalAt as ai) (spec_totalAt bs bi)"

text \<open>The (price, size) pairs a collection holds, in its own order.\<close>

definition levelPairs ::
    "(Price, 'n CalculatedOrderDetails) JSMap \<Rightarrow> (Price \<times> 'n Size) list" where
  "levelPairs m = map (\<lambda>(k, d). (k, size_d d)) m"

text \<open>The (price, size) pairs of the working map of \<open>handleDataUpdate\<close>.\<close>

definition rawPairs :: "(Price, 'n OrderDetails) JSMap \<Rightarrow> (Price \<times> 'n Size) list" where
  "rawPairs m = map (\<lambda>(k, v). (k, size_of v)) m"

text \<open>
  A collection in aggregated form (section 3): every level is stored under its own
  price, no level has size 0, and each total is the running sum of the sizes up to and
  including its level; the keys are in the canonical order of the side.
\<close>

fun running_totals ::
    "('n::{zero,plus}) \<Rightarrow> (Price, 'n CalculatedOrderDetails) JSMap \<Rightarrow> bool" where
  "running_totals t [] = True"
| "running_totals t ((k, d) # m) =
     (price d = k \<and> size_d d \<noteq> 0 \<and> total_d d = t + size_d d \<and> running_totals (total_d d) m)"

definition aggregated_asks :: "(Price, ('n::{zero,plus}) CalculatedOrderDetails) JSMap \<Rightarrow> bool" where
  "aggregated_asks m = (sorted_wrt (<) (map fst m) \<and> running_totals 0 m)"

definition aggregated_bids :: "(Price, ('n::{zero,plus}) CalculatedOrderDetails) JSMap \<Rightarrow> bool" where
  "aggregated_bids m = (sorted_wrt (>) (map fst m) \<and> running_totals 0 m)"

text \<open>
  The running sum of the sizes \<open>ss\<close> from \<open>t\<close>: one addition for each size, from left to
  right, as \<open>acc.total += size\<close> computes it.
\<close>

definition running_sum :: "('n::plus) \<Rightarrow> 'n list \<Rightarrow> 'n" where
  "running_sum t ss = foldl (+) t ss"

text \<open>The levels the aggregator emits for pairs with distinct prices, starting at sum \<open>t\<close>.\<close>

fun levels_from ::
    "('n::plus) \<Rightarrow> (Price \<times> 'n Size) list \<Rightarrow> (Price, 'n CalculatedOrderDetails) JSMap" where
  "levels_from t [] = []"
| "levels_from t ((p, s) # r) =
     (p, \<lparr>price = p, size_d = s, total_d = t + s\<rparr>) # levels_from (t + s) r"

subsection \<open>The example of the specification (section 8)\<close>

definition example_snapshot :: "real SnapshotPayload" where
  "example_snapshot =
     \<lparr>snap_product_id = ''PI_XBTUSD'', snap_numLevels = 25,
      snap_asks = [(101, 2), (100, 3)], snap_bids = [(99, 1), (98, 4)]\<rparr>"

definition example_asks :: "(Price, real CalculatedOrderDetails) JSMap" where
  "example_asks =
     [(100, \<lparr>price = 100, size_d = 3, total_d = 3\<rparr>),
      (101, \<lparr>price = 101, size_d = 2, total_d = 5\<rparr>)]"

definition example_bids :: "(Price, real CalculatedOrderDetails) JSMap" where
  "example_bids =
     [(99, \<lparr>price = 99, size_d = 1, total_d = 1\<rparr>),
      (98, \<lparr>price = 98, size_d = 4, total_d = 5\<rparr>)]"

text \<open>The state the example snapshot leads to, with the cursors and the scale as parameters.\<close>

definition example_state :: "int \<Rightarrow> int \<Rightarrow> real \<Rightarrow> real Connected" where
  "example_state ai bi t =
     \<lparr>asks = example_asks, bids = example_bids,
      productId = ''PI_XBTUSD'', numLevels = 25,
      maxTotal = \<lparr>lastVisibleAsksIndex = ai, lastVisibleBidsIndex = bi, totalValue = t\<rparr>\<rparr>"

text \<open>A snapshot that lists the ask price 100 twice.\<close>

definition duplicate_snapshot :: "real SnapshotPayload" where
  "duplicate_snapshot = example_snapshot\<lparr>snap_asks := [(100, 3), (100, 2)]\<rparr>"

definition duplicate_state :: "real \<Rightarrow> real Connected" where
  "duplicate_state t =
     \<lparr>asks = [(100, \<lparr>price = 100, size_d = 2, total_d = t\<rparr>)], bids = example_bids,
      productId = ''PI_XBTUSD'', numLevels = 25,
      maxTotal = \<lparr>lastVisibleAsksIndex = 0, lastVisibleBidsIndex = 1, totalValue = 5\<rparr>\<rparr>"

text \<open>The state a snapshot without asks leads to.\<close>

definition no_asks_state :: "real Connected" where
  "no_asks_state =
     \<lparr>asks = [], bids = example_bids,
      productId = ''PI_XBTUSD'', numLevels = 25,
      maxTotal = \<lparr>lastVisibleAsksIndex = - 1, lastVisibleBidsIndex = 1, totalValue = 5\<rparr>\<rparr>"

section \<open>Evaluation\<close>

lemmas container_defs =
  Map_new_def Map_size_def Map_values_def Map_entries_def Map_has_def Array_at_def
  read_total_def sort_ascending_def sort_descending_def asNumber_def asTotal_def

lemmas handler_defs =
  assert_def generateCalculatedOrderDetails_def generateCalculatedOrderDetailsFromExisting_def
  handleSnapshotReceived_def visibleTotal_def maxVisibleTotal_def mergeAsks_def mergeBids_def
  handleDataUpdate_def handleLastVisibleItemIndexChange_def
  handleUpdateLastVisibleBidsIndexChange_def handleUpdateLastVisibleAsksIndexChange_def
  orderBookReducer_def initialState_def

lemmas example_defs =
  example_snapshot_def example_asks_def example_bids_def example_state_def
  duplicate_snapshot_def duplicate_state_def no_asks_state_def

section \<open>The aggregator on pairs with distinct prices\<close>

lemma Map_set_fresh: "k \<notin> fst ` set m \<Longrightarrow> Map_set k v m = m @ [(k, v)]"
  by (induction m) auto

lemma map_fst_Map_set:
  "map fst (Map_set k v m) = (if k \<in> fst ` set m then map fst m else map fst m @ [k])"
  by (induction m) (force simp: image_iff)+

lemma generate_zero:
  "\<forall>e\<in>set ys. snd e = 0 \<Longrightarrow> foldl generateCalculatedOrderDetails acc ys = acc"
  by (induction ys arbitrary: acc) (auto simp: generateCalculatedOrderDetails_def)

lemma map_fst_levels_from: "map fst (levels_from t ys) = map fst ys"
  by (induction t ys rule: levels_from.induct) auto

lemma length_levels_from: "length (levels_from t ys) = length ys"
  by (induction t ys rule: levels_from.induct) auto

lemma levelPairs_levels_from: "levelPairs (levels_from t ys) = ys"
  by (induction t ys rule: levels_from.induct) (auto simp: levelPairs_def)

lemma price_levels_from: "(k, d) \<in> set (levels_from t ys) \<Longrightarrow> price d = k"
  by (induction t ys rule: levels_from.induct) auto

lemma total_levels_from:
  "i < length ys \<Longrightarrow>
   total_d (snd (levels_from t ys ! i)) = running_sum t (map snd (take (Suc i) ys))"
proof (induction t ys arbitrary: i rule: levels_from.induct)
  case (1 t)
  then show ?case by simp
next
  case (2 t p s r)
  show ?case
  proof (cases i)
    case 0
    then show ?thesis by (simp add: running_sum_def)
  next
    case (Suc j)
    with 2 show ?thesis by (simp add: running_sum_def)
  qed
qed

lemma foldl_generate:
  "distinct (map fst ys) \<Longrightarrow> fst ` set ys \<inter> fst ` set m = {} \<Longrightarrow>
   foldl generateCalculatedOrderDetails \<lparr>total_acc = t, map_acc = m\<rparr> ys =
     \<lparr>total_acc = running_sum t (map snd (filter (\<lambda>e. snd e \<noteq> 0) ys)),
      map_acc = m @ levels_from t (filter (\<lambda>e. snd e \<noteq> 0) ys)\<rparr>"
proof (induction ys arbitrary: t m)
  case Nil
  show ?case by (simp add: running_sum_def)
next
  case (Cons e ys)
  obtain p s where e: "e = (p, s)" by (cases e)
  have d: "distinct (map fst ys)" using Cons.prems by simp
  show ?case
  proof (cases "s = 0")
    case True
    have "fst ` set ys \<inter> fst ` set m = {}" using Cons.prems by auto
    from Cons.IH [OF d this] True e show ?thesis
      by (simp add: generateCalculatedOrderDetails_def)
  next
    case False
    let ?l = "(p, \<lparr>price = p, size_d = s, total_d = t + s\<rparr>)"
    have fresh: "p \<notin> fst ` set m" using Cons.prems e by auto
    have step: "generateCalculatedOrderDetails \<lparr>total_acc = t, map_acc = m\<rparr> e =
        \<lparr>total_acc = t + s, map_acc = m @ [?l]\<rparr>"
      using False fresh
      by (simp add: e generateCalculatedOrderDetails_def Map_set_fresh asNumber_def asTotal_def Let_def)
    have "fst ` set ys \<inter> fst ` set (m @ [?l]) = {}" using Cons.prems e by auto
    from Cons.IH [OF d this, of "t + s"] step False e show ?thesis
      by (simp add: running_sum_def)
  qed
qed

lemma foldl_existing:
  "foldl generateCalculatedOrderDetailsFromExisting acc ys =
   foldl generateCalculatedOrderDetails acc (rawPairs ys)"
  by (induction ys arbitrary: acc)
     (auto simp: rawPairs_def generateCalculatedOrderDetailsFromExisting_def
        generateCalculatedOrderDetails_def)

lemma distinct_map_insort_key:
  "distinct (map h (insort_key g x xs)) = (h x \<notin> h ` set xs \<and> distinct (map h xs))"
  by (induction xs) (auto simp: set_insort_key)

lemma distinct_map_sort_key: "distinct (map h (sort_key g xs)) = distinct (map h xs)"
  by (induction xs) (auto simp: distinct_map_insort_key)

lemma strict_ascending:
  "distinct (map fst xs) \<Longrightarrow> sorted_wrt (<) (map fst (sort_ascending xs))"
  by (simp add: sort_ascending_def strict_sorted_iff distinct_map_sort_key)

lemma descending_if_sorted_neg:
  "sorted (map (\<lambda>e. - fst e) (ys :: (real \<times> 'v) list)) \<Longrightarrow> distinct (map fst ys) \<Longrightarrow>
   sorted_wrt (>) (map fst ys)"
proof (induction ys)
  case Nil
  show ?case by simp
next
  case (Cons e ys)
  have "fst x < fst e" if "x \<in> set ys" for x
  proof -
    have "fst x \<le> fst e" using Cons.prems(1) that by simp
    moreover have "fst x \<noteq> fst e" using Cons.prems(2) that by (auto simp: image_iff)
    ultimately show ?thesis by simp
  qed
  with Cons show ?case by simp
qed

lemma strict_descending:
  "distinct (map fst xs) \<Longrightarrow> sorted_wrt (>) (map fst (sort_descending xs))"
  unfolding sort_descending_def
  by (rule descending_if_sorted_neg) (simp_all add: distinct_map_sort_key)

lemma sorted_wrt_map_fst_filter:
  "sorted_wrt R (map fst xs) \<Longrightarrow> sorted_wrt R (map fst (filter P xs))"
  by (simp add: sorted_wrt_map sorted_wrt_filter)

lemma sort_ascending_id:
  "sorted_wrt (<) (map fst xs) \<Longrightarrow> sort_ascending xs = xs"
  unfolding sort_ascending_def
  by (rule sort_key_id_if_sorted) (simp add: strict_sorted_iff)

lemma sorted_neg_if_descending:
  "sorted_wrt (>) (map fst (ys :: (real \<times> 'v) list)) \<Longrightarrow> sorted (map (\<lambda>e. - fst e) ys)"
  by (induction ys) (auto simp: less_imp_le)

lemma sort_descending_id:
  "sorted_wrt (>) (map fst xs) \<Longrightarrow> sort_descending xs = xs"
  unfolding sort_descending_def
  by (rule sort_key_id_if_sorted) (rule sorted_neg_if_descending)

lemma distinct_if_descending:
  "sorted_wrt (>) (ks :: real list) \<Longrightarrow> distinct ks"
  by (induction ks) auto

subsection \<open>What a snapshot aggregates\<close>

lemma snapshot_asks:
  assumes "distinct (map fst (snap_asks payload))"
    and "handleSnapshotReceived payload prevState = Connected c"
  shows "asks c = levels_from 0 (filter (\<lambda>e. snd e \<noteq> 0) (sort_ascending (snap_asks payload)))"
proof -
  have "distinct (map fst (sort_ascending (snap_asks payload)))"
    using assms(1) by (simp add: sort_ascending_def distinct_map_sort_key)
  from foldl_generate [OF this, of "[]" 0] assms(2) show ?thesis
    by (auto simp: handleSnapshotReceived_def Let_def)
qed

lemma snapshot_bids:
  assumes "distinct (map fst (snap_bids payload))"
    and "handleSnapshotReceived payload prevState = Connected c"
  shows "bids c = levels_from 0 (filter (\<lambda>e. snd e \<noteq> 0) (sort_descending (snap_bids payload)))"
proof -
  have "distinct (map fst (sort_descending (snap_bids payload)))"
    using assms(1) by (simp add: sort_descending_def distinct_map_sort_key)
  from foldl_generate [OF this, of "[]" 0] assms(2) show ?thesis
    by (auto simp: handleSnapshotReceived_def Let_def)
qed

lemma levels_from_sound:
  assumes m: "m = levels_from 0 (filter (\<lambda>e. snd e \<noteq> 0) ys)" and R: "sorted_wrt R (map fst ys)"
  shows "sorted_wrt R (map fst m) \<and>
     (\<forall>(k, d) \<in> set m. price d = k) \<and>
     set (levelPairs m) = {e \<in> set ys. snd e \<noteq> 0} \<and>
     (\<forall>i < length m.
        total_d (snd (m ! i)) = running_sum 0 (map snd (take (Suc i) (levelPairs m))))"
proof (intro conjI)
  show "sorted_wrt R (map fst m)"
    using R by (simp add: m map_fst_levels_from sorted_wrt_map_fst_filter)
  show "\<forall>(k, d) \<in> set m. price d = k"
    using price_levels_from by (auto simp: m)
  show "set (levelPairs m) = {e \<in> set ys. snd e \<noteq> 0}"
    by (simp add: m levelPairs_levels_from)
  show "\<forall>i < length m.
      total_d (snd (m ! i)) = running_sum 0 (map snd (take (Suc i) (levelPairs m)))"
  proof (intro allI impI)
    fix i assume "i < length m"
    then have "i < length (filter (\<lambda>e. snd e \<noteq> 0) ys)"
      by (simp add: m length_levels_from)
    from total_levels_from [OF this, of 0] show
      "total_d (snd (m ! i)) = running_sum 0 (map snd (take (Suc i) (levelPairs m)))"
      by (simp add: m levelPairs_levels_from)
  qed
qed

section \<open>A delta that restates an aggregated collection\<close>

lemma foldl_Map_set_distinct:
  "distinct (map fst (m @ es)) \<Longrightarrow> foldl (\<lambda>m (k, v). Map_set k v m) m es = m @ es"
proof (induction es arbitrary: m)
  case Nil
  show ?case by simp
next
  case (Cons e es)
  obtain k v where e: "e = (k, v)" by (cases e)
  have "k \<notin> fst ` set m" using Cons.prems e by auto
  then have "Map_set k v m = m @ [(k, v)]" by (rule Map_set_fresh)
  moreover have "distinct (map fst ((m @ [(k, v)]) @ es))" using Cons.prems e by simp
  ultimately show ?case using Cons.IH [of "m @ [(k, v)]"] e by simp
qed

lemma Map_new_distinct: "distinct (map fst es) \<Longrightarrow> Map_new es = es"
  using foldl_Map_set_distinct [of "[]" es] by (simp add: Map_new_def)

lemma map_fst_rawPairs: "map fst (rawPairs m) = map fst m"
  by (induction m) (auto simp: rawPairs_def)

lemma rawPairs_Map_set_same:
  "distinct (map fst m) \<Longrightarrow> (p, size_of v) \<in> set (rawPairs m) \<Longrightarrow>
   rawPairs (Map_set p v m) = rawPairs m"
proof (induction m)
  case Nil
  then show ?case by (simp add: rawPairs_def)
next
  case (Cons e m)
  obtain k w where e: "e = (k, w)" by (cases e)
  show ?case
  proof (cases "k = p")
    case True
    have "p \<notin> fst ` set (rawPairs m)"
      using Cons.prems(1) e True map_fst_rawPairs [of m] by (metis distinct.simps(2) fst_conv list.simps(9) set_map)
    then have "(p, size_of v) \<notin> set (rawPairs m)" by force
    then have "size_of w = size_of v" using Cons.prems(2) e True by (simp add: rawPairs_def)
    then show ?thesis using e True by (simp add: rawPairs_def)
  next
    case False
    then have "(p, size_of v) \<in> set (rawPairs m)" using Cons.prems(2) e by (simp add: rawPairs_def)
    moreover have "distinct (map fst m)" using Cons.prems(1) by simp
    ultimately have "rawPairs (Map_set p v m) = rawPairs m" by (intro Cons.IH)
    then show ?thesis using e False by (simp add: rawPairs_def)
  qed
qed

lemma map_fst_levelPairs: "map fst (levelPairs m) = map fst m"
  by (induction m) (auto simp: levelPairs_def)

lemma restate_step:
  assumes "distinct (map fst m)" and "(p, s) \<in> set (rawPairs m)"
  shows "rawPairs (Map_set p (Raw \<lparr>price = p, size_d = s\<rparr>) m) = rawPairs m \<and>
         map fst (Map_set p (Raw \<lparr>price = p, size_d = s\<rparr>) m) = map fst m"
proof
  show "rawPairs (Map_set p (Raw \<lparr>price = p, size_d = s\<rparr>) m) = rawPairs m"
    using assms by (intro rawPairs_Map_set_same) simp_all
  have "p \<in> fst ` set (rawPairs m)" using assms(2) by force
  then have "p \<in> fst ` set m" using map_fst_rawPairs [of m] by (metis set_map)
  then show "map fst (Map_set p (Raw \<lparr>price = p, size_d = s\<rparr>) m) = map fst m"
    by (simp add: map_fst_Map_set)
qed

lemma mergeAsks_restate:
  "distinct (map fst m) \<Longrightarrow> set ds \<subseteq> set (rawPairs m) \<Longrightarrow> \<forall>e \<in> set ds. snd e \<noteq> 0 \<Longrightarrow>
   rawPairs (mergeAsks m ds) = rawPairs m \<and> map fst (mergeAsks m ds) = map fst m"
proof (induction ds arbitrary: m)
  case Nil
  show ?case by (simp add: mergeAsks_def)
next
  case (Cons e ds)
  obtain p s where e: "e = (p, s)" by (cases e)
  let ?m = "Map_set p (Raw \<lparr>price = p, size_d = s\<rparr>) m"
  have s: "s \<noteq> 0" using Cons.prems(3) e by simp
  have st: "rawPairs ?m = rawPairs m \<and> map fst ?m = map fst m"
    using Cons.prems e by (intro restate_step) simp_all
  have "rawPairs (mergeAsks ?m ds) = rawPairs ?m \<and> map fst (mergeAsks ?m ds) = map fst ?m"
    using Cons.prems st by (intro Cons.IH) simp_all
  moreover have "mergeAsks m (e # ds) = mergeAsks ?m ds"
    using s by (simp add: mergeAsks_def e)
  ultimately show ?case using st by simp
qed

lemma mergeBids_restate:
  "distinct (map fst m) \<Longrightarrow> set ds \<subseteq> set (rawPairs m) \<Longrightarrow> \<forall>e \<in> set ds. snd e \<noteq> 0 \<Longrightarrow>
   rawPairs (mergeBids m ds) = rawPairs m \<and> map fst (mergeBids m ds) = map fst m"
proof (induction ds arbitrary: m)
  case Nil
  show ?case by (simp add: mergeBids_def)
next
  case (Cons e ds)
  obtain p s where e: "e = (p, s)" by (cases e)
  let ?m = "Map_set p (Raw \<lparr>price = p, size_d = s\<rparr>) m"
  have s: "s \<noteq> 0" using Cons.prems(3) e by simp
  have st: "rawPairs ?m = rawPairs m \<and> map fst ?m = map fst m"
    using Cons.prems e by (intro restate_step) simp_all
  have "rawPairs (mergeBids ?m ds) = rawPairs ?m \<and> map fst (mergeBids ?m ds) = map fst ?m"
    using Cons.prems st by (intro Cons.IH) simp_all
  moreover have "mergeBids m (e # ds) = mergeBids ?m ds"
    using s by (simp add: mergeBids_def e)
  ultimately show ?case using st by simp
qed

lemma running_totals_size: "running_totals t m \<Longrightarrow> (k, d) \<in> set m \<Longrightarrow> size_d d \<noteq> 0"
  by (induction t m rule: running_totals.induct) auto

lemma running_totals_nonzero:
  "running_totals t m \<Longrightarrow> e \<in> set (levelPairs m) \<Longrightarrow> snd e \<noteq> 0"
  using running_totals_size [of t m] by (auto simp: levelPairs_def)

lemma levels_from_running_totals: "running_totals t m \<Longrightarrow> levels_from t (levelPairs m) = m"
  by (induction t m rule: running_totals.induct) (auto simp: levelPairs_def)

lemma rawPairs_Calculated: "rawPairs (map (\<lambda>(k, v). (k, Calculated v)) m) = levelPairs m"
  by (induction m) (auto simp: rawPairs_def levelPairs_def)

lemma map_fst_Calculated: "map fst (map (\<lambda>(k, v). (k, Calculated v)) m) = map fst m"
  by (induction m) auto

text \<open>Re-aggregating a working map whose pairs are those of an aggregated collection.\<close>

lemma reaggregate:
  assumes rt: "running_totals 0 m" and d: "distinct (map fst m)"
    and raw: "rawPairs tmp = levelPairs m"
  shows "map_acc (foldl generateCalculatedOrderDetailsFromExisting
            \<lparr>total_acc = 0, map_acc = []\<rparr> tmp) = m"
proof -
  have "distinct (map fst (rawPairs tmp))" using d by (simp add: raw map_fst_levelPairs)
  from foldl_generate [OF this, of "[]" 0]
  have "map_acc (foldl generateCalculatedOrderDetailsFromExisting
            \<lparr>total_acc = 0, map_acc = []\<rparr> tmp) =
        levels_from 0 (filter (\<lambda>e. snd e \<noteq> 0) (levelPairs m))"
    by (simp add: foldl_existing raw)
  also have "filter (\<lambda>e. snd e \<noteq> 0) (levelPairs m) = levelPairs m"
    using running_totals_nonzero [OF rt] by (simp add: filter_id_conv)
  finally show ?thesis by (simp add: levels_from_running_totals [OF rt])
qed

lemma restating_asks:
  assumes ag: "aggregated_asks m" and ds: "set ds \<subseteq> set (levelPairs m)"
  shows "map_acc (foldl generateCalculatedOrderDetailsFromExisting \<lparr>total_acc = 0, map_acc = []\<rparr>
           (sort_ascending (Map_entries
              (mergeAsks (Map_new (map (\<lambda>(k, v). (k, Calculated v)) m)) ds)))) = m"
proof -
  let ?c = "map (\<lambda>(k, v). (k, Calculated v)) m"
  have so: "sorted_wrt (<) (map fst m)" and rt: "running_totals 0 m"
    using ag by (simp_all add: aggregated_asks_def)
  have d: "distinct (map fst m)" using so by (simp add: strict_sorted_iff)
  have kc: "map fst ?c = map fst m" by (rule map_fst_Calculated)
  have dc: "distinct (map fst ?c)" unfolding kc by (rule d)
  have new: "Map_new ?c = ?c" using dc by (rule Map_new_distinct)
  have nz: "\<forall>e \<in> set ds. snd e \<noteq> 0" using running_totals_nonzero [OF rt] ds by blast
  have "rawPairs (mergeAsks ?c ds) = rawPairs ?c \<and> map fst (mergeAsks ?c ds) = map fst ?c"
    using dc ds nz by (intro mergeAsks_restate) (simp_all add: rawPairs_Calculated)
  then have raw: "rawPairs (mergeAsks ?c ds) = levelPairs m"
    and keys: "map fst (mergeAsks ?c ds) = map fst m"
    by (simp_all only: rawPairs_Calculated kc)
  have "sort_ascending (mergeAsks ?c ds) = mergeAsks ?c ds"
    using so by (intro sort_ascending_id) (simp add: keys)
  then show ?thesis using reaggregate [OF rt d raw] by (simp add: new Map_entries_def)
qed

lemma restating_bids:
  assumes ag: "aggregated_bids m" and ds: "set ds \<subseteq> set (levelPairs m)"
  shows "map_acc (foldl generateCalculatedOrderDetailsFromExisting \<lparr>total_acc = 0, map_acc = []\<rparr>
           (sort_descending (Map_entries
              (mergeBids (Map_new (map (\<lambda>(k, v). (k, Calculated v)) m)) ds)))) = m"
proof -
  let ?c = "map (\<lambda>(k, v). (k, Calculated v)) m"
  have so: "sorted_wrt (>) (map fst m)" and rt: "running_totals 0 m"
    using ag by (simp_all add: aggregated_bids_def)
  have d: "distinct (map fst m)" using so by (rule distinct_if_descending)
  have kc: "map fst ?c = map fst m" by (rule map_fst_Calculated)
  have dc: "distinct (map fst ?c)" unfolding kc by (rule d)
  have new: "Map_new ?c = ?c" using dc by (rule Map_new_distinct)
  have nz: "\<forall>e \<in> set ds. snd e \<noteq> 0" using running_totals_nonzero [OF rt] ds by blast
  have "rawPairs (mergeBids ?c ds) = rawPairs ?c \<and> map fst (mergeBids ?c ds) = map fst ?c"
    using dc ds nz by (intro mergeBids_restate) (simp_all add: rawPairs_Calculated)
  then have raw: "rawPairs (mergeBids ?c ds) = levelPairs m"
    and keys: "map fst (mergeBids ?c ds) = map fst m"
    by (simp_all only: rawPairs_Calculated kc)
  have "sort_descending (mergeBids ?c ds) = mergeBids ?c ds"
    using so by (intro sort_descending_id) (simp add: keys)
  then show ?thesis using reaggregate [OF rt d raw] by (simp add: new Map_entries_def)
qed

lemma restating_delta:
  assumes "aggregated_asks (asks c)" and "aggregated_bids (bids c)"
    and "set (upd_asks payload) \<subseteq> set (levelPairs (asks c))"
    and "set (upd_bids payload) \<subseteq> set (levelPairs (bids c))"
  shows "handleDataUpdate payload (Connected c) =
     (case maxVisibleTotal (bids c) (lastVisibleBidsIndex (maxTotal c))
             (asks c) (lastVisibleAsksIndex (maxTotal c)) of
        Inl e \<Rightarrow> Inl e
      | Inr t \<Rightarrow> Inr (Connected (c\<lparr>maxTotal := (maxTotal c)\<lparr>totalValue := t\<rparr>\<rparr>)))"
  by (simp add: handleDataUpdate_def assert_def Let_def
        restating_asks [OF assms(1,3)] restating_bids [OF assms(2,4)] split: sum.splits)

section \<open>The scale on non-empty collections\<close>

lemma visibleTotal_succeeds:
  "m \<noteq> [] \<Longrightarrow> 0 \<le> i \<Longrightarrow> \<exists>t. visibleTotal m i = Inr t"
  by (cases m) (auto simp: visibleTotal_def read_total_def Array_at_def Map_values_def Map_size_def)

lemma maxVisibleTotal_succeeds:
  "bs \<noteq> [] \<Longrightarrow> as \<noteq> [] \<Longrightarrow> 0 \<le> bi \<Longrightarrow> 0 \<le> ai \<Longrightarrow> \<exists>t. maxVisibleTotal bs bi as ai = Inr t"
  using visibleTotal_succeeds [of bs bi] visibleTotal_succeeds [of as ai]
  by (auto simp: maxVisibleTotal_def)

lemma visibleTotal_spec:
  assumes "m \<noteq> []" and "0 \<le> i"
  shows "visibleTotal m i = Inr (spec_totalAt m i)"
proof -
  define j where "j = min i (int (length m) - 1)"
  have len: "0 < length m" using assms(1) by simp
  have lo: "0 \<le> j" using assms(2) len by (simp add: j_def)
  have "j \<le> int (length m) - 1" by (simp add: j_def)
  then have hi: "nat j < length m" using len lo by linarith
  have "map snd m ! nat j = snd (m ! nat j)" using hi by (rule nth_map)
  moreover have "j < int (length m)" using hi lo by linarith
  ultimately have "Array_at (Map_values m) j = Some (snd (m ! nat j))"
    using lo by (simp add: Array_at_def Map_values_def)
  then show ?thesis
    using assms(1)
    by (simp add: visibleTotal_def Map_size_def read_total_def spec_totalAt_def j_def)
qed

lemma maxVisibleTotal_spec:
  "bs \<noteq> [] \<Longrightarrow> as \<noteq> [] \<Longrightarrow> 0 \<le> bi \<Longrightarrow> 0 \<le> ai \<Longrightarrow>
   maxVisibleTotal bs bi as ai = Inr (spec_computeScale as bs ai bi)"
  by (simp add: maxVisibleTotal_def visibleTotal_spec spec_computeScale_def max.commute)

lemma visibleTotal_fails_iff:
  "(visibleTotal m i = Inl TypeError) = (m = [] \<or> i < 0)"
  by (cases m)
     (auto simp: visibleTotal_def read_total_def Array_at_def Map_values_def Map_size_def min_def)

lemma visibleTotal_Inr:
  "visibleTotal m i = Inr t \<Longrightarrow> m \<noteq> [] \<and> 0 \<le> i"
  using visibleTotal_fails_iff [of m i] by auto

lemma maxVisibleTotal_Inr:
  assumes "maxVisibleTotal bs bi as ai = Inr t"
  shows "t = spec_computeScale as bs ai bi"
proof -
  from assms obtain tb ta where "visibleTotal bs bi = Inr tb" "visibleTotal as ai = Inr ta"
    by (auto simp: maxVisibleTotal_def split: sum.splits)
  then have "bs \<noteq> [] \<and> 0 \<le> bi" "as \<noteq> [] \<and> 0 \<le> ai" by (auto dest: visibleTotal_Inr)
  then show ?thesis using assms maxVisibleTotal_spec [of bs as bi ai] by simp
qed

lemma index_change_scale:
  assumes "handleLastVisibleItemIndexChange bi ai c = Inr (Connected c')"
  shows "totalValue (maxTotal c') =
     spec_computeScale (asks c') (bids c')
       (lastVisibleAsksIndex (maxTotal c')) (lastVisibleBidsIndex (maxTotal c'))"
  using assms
  by (auto simp: handleLastVisibleItemIndexChange_def split: sum.splits dest: maxVisibleTotal_Inr)

lemma delta_scale:
  assumes "handleDataUpdate payload (Connected c) = Inr (Connected c')"
  shows "totalValue (maxTotal c') =
     spec_computeScale (asks c') (bids c')
       (lastVisibleAsksIndex (maxTotal c')) (lastVisibleBidsIndex (maxTotal c'))"
  using assms
  by (auto simp: handleDataUpdate_def assert_def Let_def split: sum.splits
      dest: maxVisibleTotal_Inr)

section \<open>The collections a transition produces are in aggregated form\<close>

lemma distinct_Map_set: "distinct (map fst m) \<Longrightarrow> distinct (map fst (Map_set k v m))"
  by (simp add: map_fst_Map_set)

lemma map_fst_Map_delete: "map fst (Map_delete k m) = filter (\<lambda>k'. k' \<noteq> k) (map fst m)"
  by (induction m) auto

lemma distinct_Map_delete: "distinct (map fst m) \<Longrightarrow> distinct (map fst (Map_delete k m))"
  by (simp add: map_fst_Map_delete)

lemma distinct_foldl_Map_set:
  "distinct (map fst m) \<Longrightarrow> distinct (map fst (foldl (\<lambda>m (k, v). Map_set k v m) m es))"
  by (induction es arbitrary: m) (auto simp: distinct_Map_set)

lemma distinct_Map_new: "distinct (map fst (Map_new es))"
  using distinct_foldl_Map_set [of "[]" es] by (simp add: Map_new_def)

lemma distinct_mergeAsks: "distinct (map fst m) \<Longrightarrow> distinct (map fst (mergeAsks m ds))"
  unfolding mergeAsks_def
  by (induction ds arbitrary: m) (auto simp: distinct_Map_set distinct_Map_delete)

lemma distinct_mergeBids: "distinct (map fst m) \<Longrightarrow> distinct (map fst (mergeBids m ds))"
  unfolding mergeBids_def
  by (induction ds arbitrary: m) (auto simp: distinct_Map_set)

lemma running_totals_levels_from:
  "\<forall>e \<in> set ys. snd e \<noteq> 0 \<Longrightarrow> running_totals t (levels_from t ys)"
  by (induction t ys rule: levels_from.induct) auto

lemma reaggregate_levels:
  assumes "distinct (map fst tmp)"
  shows "map_acc (foldl generateCalculatedOrderDetailsFromExisting
            \<lparr>total_acc = 0, map_acc = []\<rparr> tmp) =
         levels_from 0 (filter (\<lambda>e. snd e \<noteq> 0) (rawPairs tmp))"
proof -
  have "distinct (map fst (rawPairs tmp))" using assms by (simp add: map_fst_rawPairs)
  from foldl_generate [OF this, of "[]" 0] show ?thesis by (simp add: foldl_existing)
qed

lemma aggregated_levels:
  assumes "sorted_wrt R (map fst ys)"
  shows "sorted_wrt R (map fst (levels_from 0 (filter (\<lambda>e. snd e \<noteq> 0) ys))) \<and>
         running_totals 0 (levels_from 0 (filter (\<lambda>e. snd e \<noteq> 0) ys))"
  using assms
  by (simp add: map_fst_levels_from sorted_wrt_map_fst_filter running_totals_levels_from)

lemma delta_aggregated:
  assumes "handleDataUpdate payload (Connected c) = Inr (Connected c')"
  shows "aggregated_asks (asks c') \<and> aggregated_bids (bids c')"
proof -
  let ?a = "mergeAsks (Map_new (map (\<lambda>(k, v). (k, Calculated v)) (asks c))) (upd_asks payload)"
  let ?b = "mergeBids (Map_new (map (\<lambda>(k, v). (k, Calculated v)) (bids c))) (upd_bids payload)"
  have da: "distinct (map fst ?a)" by (intro distinct_mergeAsks distinct_Map_new)
  have db: "distinct (map fst ?b)" by (intro distinct_mergeBids distinct_Map_new)
  have sa: "distinct (map fst (sort_ascending ?a))"
    using da by (simp add: sort_ascending_def distinct_map_sort_key)
  have sb: "distinct (map fst (sort_descending ?b))"
    using db by (simp add: sort_descending_def distinct_map_sort_key)
  have a: "asks c' = levels_from 0 (filter (\<lambda>e. snd e \<noteq> 0) (rawPairs (sort_ascending ?a)))"
    using assms reaggregate_levels [OF sa]
    by (auto simp: handleDataUpdate_def assert_def Let_def Map_entries_def split: sum.splits)
  have b: "bids c' = levels_from 0 (filter (\<lambda>e. snd e \<noteq> 0) (rawPairs (sort_descending ?b)))"
    using assms reaggregate_levels [OF sb]
    by (auto simp: handleDataUpdate_def assert_def Let_def Map_entries_def split: sum.splits)
  have "sorted_wrt (<) (map fst (rawPairs (sort_ascending ?a)))"
    using strict_ascending [OF da] by (simp add: map_fst_rawPairs)
  note ra = aggregated_levels [OF this]
  have "sorted_wrt (>) (map fst (rawPairs (sort_descending ?b)))"
    using strict_descending [OF db] by (simp add: map_fst_rawPairs)
  note rb = aggregated_levels [OF this]
  show ?thesis
    using ra rb by (simp add: a b aggregated_asks_def aggregated_bids_def)
qed

lemma snapshot_aggregated:
  assumes "distinct (map fst (snap_asks payload))" and "distinct (map fst (snap_bids payload))"
    and "handleSnapshotReceived payload prevState = Connected c"
  shows "aggregated_asks (asks c) \<and> aggregated_bids (bids c)"
  using aggregated_levels [OF strict_ascending [OF assms(1)]]
    aggregated_levels [OF strict_descending [OF assms(2)]]
  by (simp add: snapshot_asks [OF assms(1,3)] snapshot_bids [OF assms(2,3)]
        aggregated_asks_def aggregated_bids_def)

section \<open>Size 0 in a delta\<close>

lemma Map_delete_removes: "\<not> Map_has k (Map_delete k m)"
  by (simp add: Map_has_def map_fst_Map_delete)

lemma Map_delete_absent: "\<not> Map_has k m \<Longrightarrow> Map_delete k m = m"
  by (induction m) (auto simp: Map_has_def)

lemma mergeAsks_zero: "mergeAsks m ((p, 0) # ds) = mergeAsks (Map_delete p m) ds"
  by (simp add: mergeAsks_def)

lemma mergeBids_zero: "mergeBids m ((p, 0) # ds) = mergeBids m ds"
  by (simp add: mergeBids_def)

section \<open>Runs of the example\<close>

lemma example_snapshot_result:
  "handleSnapshotReceived example_snapshot NeverLoaded = Connected (example_state 1 1 5)"
  by (simp add: container_defs handler_defs example_defs)

lemma example_delta_result:
  "handleDataUpdate \<lparr>upd_asks = [(100, 0), (102, 1)], upd_bids = []\<rparr>
     (Connected (example_state 1 1 5)) =
   Inr (Connected ((example_state 1 1 5)
     \<lparr>asks := [(101, \<lparr>price = 101, size_d = 2, total_d = 2\<rparr>),
               (102, \<lparr>price = 102, size_d = 1, total_d = 3\<rparr>)]\<rparr>))"
  by (simp add: container_defs handler_defs example_defs)

lemma example_aggregated:
  "aggregated_asks example_asks" "aggregated_bids example_bids"
  by (simp_all add: aggregated_asks_def aggregated_bids_def example_defs)

section \<open>The claims of the specification\<close>

text \<open>
  Claim C1 (delta removal on both sides): a delta entry with size 0 for a price present
  in a side's collection removes that price. The code does so for asks only: in
  \<open>handleDataUpdate\<close> the loop over \<open>payload.bids\<close> returns on size 0 without deleting.
  From the state of the example, the delta \<open>bids = [(99, 0)]\<close> leaves the level at 99 in
  place and returns the state unchanged, whereas \<open>asks = [(100, 0)]\<close> removes the level
  at 100.
\<close>

theorem zero_size_bid_not_removed:
  "Map_has 99 (bids (example_state 1 1 5)) \<and>
   handleDataUpdate \<lparr>upd_asks = [], upd_bids = [(99, 0)]\<rparr> (Connected (example_state 1 1 5)) =
     Inr (Connected (example_state 1 1 5)) \<and>
   Map_has 100 (asks (example_state 1 1 5)) \<and>
   handleDataUpdate \<lparr>upd_asks = [(100, 0)], upd_bids = []\<rparr> (Connected (example_state 1 1 5)) =
     Inr (Connected ((example_state 1 1 5)
            \<lparr>asks := [(101, \<lparr>price = 101, size_d = 2, total_d = 2\<rparr>)]\<rparr>))"
  by (simp add: container_defs handler_defs example_defs)

text \<open>
  Claim C2 (cursors after a snapshot), as stated, fails for a previous state
  \<open>Disconnected\<close>: \<open>handleSnapshotReceived\<close> tests \<open>prevState.type === 'Connected'\<close>
  only. A snapshot received in a \<open>Disconnected\<close> state with both cursors at 0 sets both
  cursors to 1, the last row.
\<close>

theorem snapshot_from_disconnected_resets_cursors:
  "handleSnapshotReceived example_snapshot (Disconnected (example_state 0 0 3)) =
     Connected (example_state 1 1 5)"
  by (simp add: container_defs handler_defs example_defs)

text \<open>
  Claim C2, amended: a snapshot always yields a \<open>Connected\<close> state; its two cursors are
  those of the previous state when that state is \<open>Connected\<close>, and the size of the new
  collection minus 1 for every other previous state (\<open>NeverLoaded\<close>,
  \<open>ConnectedWaitingForData\<close>, \<open>Disconnected\<close>).
\<close>

theorem snapshot_cursors:
  "\<exists>c'. handleSnapshotReceived payload prevState = Connected c' \<and>
      lastVisibleAsksIndex (maxTotal c') =
        (case prevState of
           Connected c \<Rightarrow> lastVisibleAsksIndex (maxTotal c)
         | _ \<Rightarrow> Map_size (asks c') - 1) \<and>
      lastVisibleBidsIndex (maxTotal c') =
        (case prevState of
           Connected c \<Rightarrow> lastVisibleBidsIndex (maxTotal c)
         | _ \<Rightarrow> Map_size (bids c') - 1)"
  by (cases prevState) (simp_all add: handleSnapshotReceived_def Let_def)

text \<open>
  Claim C3 (scale on an empty side): an empty collection contributes 0 to the scale and
  the computation does not fail. In the code the clamped index of an empty collection is
  \<open>min(index, -1) = -1\<close>, the array read yields \<open>undefined\<close> and reading \<open>.total\<close>
  throws. The state reached by a snapshot without asks has an empty ask side; updating
  the asks cursor to 0 there throws a \<open>TypeError\<close>, where the specification computes
  \<open>max(0, 5) = 5\<close>.
\<close>

theorem scale_fails_on_empty_side:
  "run NeverLoaded [SnapshotReceived (example_snapshot\<lparr>snap_asks := []\<rparr>)] =
     Inr (Connected no_asks_state) \<and>
   orderBookReducer (Some (Connected no_asks_state)) (UpdateAsksLastVisibleIndex 0) =
     Inl TypeError \<and>
   handleLastVisibleItemIndexChange 1 0 no_asks_state = Inl TypeError \<and>
   spec_computeScale (asks no_asks_state) (bids no_asks_state) 0 1 = 5"
  by (simp add: container_defs handler_defs example_defs spec_computeScale_def spec_totalAt_def)

text \<open>
  Claim C4 (the scale is the maximum of the two totals at the clamped cursors in every
  reachable state). \<open>handleSnapshotReceived\<close> keeps the cursors of a \<open>Connected\<close> state
  but stores the maximum of the two grand totals. After the example snapshot, both cursors
  are moved to row 0 (scale 3); the same snapshot again keeps the cursors at 0 and stores
  5, where the totals at row 0 are 3 and 1.
\<close>

theorem snapshot_scale_ignores_cursors:
  "run NeverLoaded
     [SnapshotReceived example_snapshot, UpdateBidsLastVisibleIndex 0,
      UpdateAsksLastVisibleIndex 0, SnapshotReceived example_snapshot] =
     Inr (Connected (example_state 0 0 5)) \<and>
   totalValue (maxTotal (example_state 0 0 5)) = 5 \<and>
   spec_computeScale (asks (example_state 0 0 5)) (bids (example_state 0 0 5)) 0 0 = 3"
  by (simp add: container_defs handler_defs example_defs spec_computeScale_def spec_totalAt_def)

text \<open>
  Claim C5 (sort and sum): every snapshot yields a \<open>Connected\<close> state. When the ask
  prices of the payload are distinct, the asks of that state are in strictly ascending
  price order, each level is stored under its own price, the levels are exactly the pairs
  of the payload with a size other than 0, and the total of the level in row \<open>i\<close> is the
  running sum of the sizes of rows \<open>0..i\<close>: from 0, one addition for each row, from row 0
  on, pairs of size 0 adding nothing. The same holds for bids, in strictly descending
  price order. The addition is that of the number type, whatever it is.
\<close>

theorem snapshot_sort_and_sum:
  "\<exists>c. handleSnapshotReceived payload prevState = Connected c \<and>
     (distinct (map fst (snap_asks payload)) \<longrightarrow>
        sorted_wrt (<) (map fst (asks c)) \<and>
        (\<forall>(k, d) \<in> set (asks c). price d = k) \<and>
        set (levelPairs (asks c)) = {e \<in> set (snap_asks payload). snd e \<noteq> 0} \<and>
        (\<forall>i < length (asks c).
           total_d (snd (asks c ! i)) =
             running_sum 0 (map snd (take (Suc i) (levelPairs (asks c)))))) \<and>
     (distinct (map fst (snap_bids payload)) \<longrightarrow>
        sorted_wrt (>) (map fst (bids c)) \<and>
        (\<forall>(k, d) \<in> set (bids c). price d = k) \<and>
        set (levelPairs (bids c)) = {e \<in> set (snap_bids payload). snd e \<noteq> 0} \<and>
        (\<forall>i < length (bids c).
           total_d (snd (bids c ! i)) =
             running_sum 0 (map snd (take (Suc i) (levelPairs (bids c))))))"
proof -
  obtain c where c: "handleSnapshotReceived payload prevState = Connected c"
    by (simp add: handleSnapshotReceived_def Let_def)
  have "sorted_wrt (<) (map fst (asks c)) \<and>
        (\<forall>(k, d) \<in> set (asks c). price d = k) \<and>
        set (levelPairs (asks c)) = {e \<in> set (snap_asks payload). snd e \<noteq> 0} \<and>
        (\<forall>i < length (asks c).
           total_d (snd (asks c ! i)) =
             running_sum 0 (map snd (take (Suc i) (levelPairs (asks c)))))"
    if d: "distinct (map fst (snap_asks payload))"
    using levels_from_sound [OF snapshot_asks [OF d c] strict_ascending [OF d]]
    by (simp add: sort_ascending_def)
  moreover have "sorted_wrt (>) (map fst (bids c)) \<and>
        (\<forall>(k, d) \<in> set (bids c). price d = k) \<and>
        set (levelPairs (bids c)) = {e \<in> set (snap_bids payload). snd e \<noteq> 0} \<and>
        (\<forall>i < length (bids c).
           total_d (snd (bids c ! i)) =
             running_sum 0 (map snd (take (Suc i) (levelPairs (bids c)))))"
    if d: "distinct (map fst (snap_bids payload))"
    using levels_from_sound [OF snapshot_bids [OF d c] strict_descending [OF d]]
    by (simp add: sort_descending_def)
  ultimately show ?thesis using c by blast
qed

text \<open>
  The example of the specification satisfies the hypotheses of C5.
\<close>

theorem snapshot_sort_and_sum_witness:
  "handleSnapshotReceived example_snapshot NeverLoaded = Connected (example_state 1 1 5) \<and>
   distinct (map fst (snap_asks example_snapshot)) \<and>
   distinct (map fst (snap_bids example_snapshot)) \<and>
   sorted_wrt (<) (map fst (asks (example_state 1 1 5))) \<and>
   sorted_wrt (>) (map fst (bids (example_state 1 1 5))) \<and>
   set (levelPairs (asks (example_state 1 1 5))) = {(100, 3), (101, 2)} \<and>
   set (levelPairs (bids (example_state 1 1 5))) = {(99, 1), (98, 4)} \<and>
   total_d (snd (asks (example_state 1 1 5) ! 1)) =
     running_sum 0 (map snd (take 2 (levelPairs (asks (example_state 1 1 5))))) \<and>
   total_d (snd (bids (example_state 1 1 5) ! 1)) =
     running_sum 0 (map snd (take 2 (levelPairs (bids (example_state 1 1 5))))) \<and>
   running_sum 0 (map snd (take 2 (levelPairs (bids (example_state 1 1 5))))) = 5"
proof -
  have r: "handleSnapshotReceived example_snapshot NeverLoaded = Connected (example_state 1 1 5)"
    by (rule example_snapshot_result)
  have da: "distinct (map fst (snap_asks example_snapshot))"
    and db: "distinct (map fst (snap_bids example_snapshot))"
    by (simp_all add: example_defs)
  have la: "1 < length (asks (example_state 1 1 5))"
    and lb: "1 < length (bids (example_state 1 1 5))"
    by (simp_all add: example_defs)
  have sa: "{e \<in> set (snap_asks example_snapshot). snd e \<noteq> 0} = {(100, 3), (101, 2)}"
    and sb: "{e \<in> set (snap_bids example_snapshot). snd e \<noteq> 0} = {(99, 1), (98, 4)}"
    by (auto simp: example_defs)
  have five: "running_sum 0 (map snd (take 2 (levelPairs (bids (example_state 1 1 5))))) = 5"
    by (simp add: example_defs levelPairs_def running_sum_def)
  from snapshot_sort_and_sum [of example_snapshot NeverLoaded]
  have t: "(distinct (map fst (snap_asks example_snapshot)) \<longrightarrow>
        sorted_wrt (<) (map fst (asks (example_state 1 1 5))) \<and>
        (\<forall>(k, d) \<in> set (asks (example_state 1 1 5)). price d = k) \<and>
        set (levelPairs (asks (example_state 1 1 5))) =
          {e \<in> set (snap_asks example_snapshot). snd e \<noteq> 0} \<and>
        (\<forall>i < length (asks (example_state 1 1 5)).
           total_d (snd (asks (example_state 1 1 5) ! i)) =
             running_sum 0 (map snd (take (Suc i) (levelPairs (asks (example_state 1 1 5))))))) \<and>
     (distinct (map fst (snap_bids example_snapshot)) \<longrightarrow>
        sorted_wrt (>) (map fst (bids (example_state 1 1 5))) \<and>
        (\<forall>(k, d) \<in> set (bids (example_state 1 1 5)). price d = k) \<and>
        set (levelPairs (bids (example_state 1 1 5))) =
          {e \<in> set (snap_bids example_snapshot). snd e \<noteq> 0} \<and>
        (\<forall>i < length (bids (example_state 1 1 5)).
           total_d (snd (bids (example_state 1 1 5) ! i)) =
             running_sum 0 (map snd (take (Suc i) (levelPairs (bids (example_state 1 1 5)))))))"
    unfolding r by simp
  from t da have a: "sorted_wrt (<) (map fst (asks (example_state 1 1 5)))"
    "set (levelPairs (asks (example_state 1 1 5))) = {(100, 3), (101, 2)}"
    "total_d (snd (asks (example_state 1 1 5) ! 1)) =
       running_sum 0 (map snd (take 2 (levelPairs (asks (example_state 1 1 5)))))"
    using la sa by (simp_all add: numeral_2_eq_2)
  from t db have b: "sorted_wrt (>) (map fst (bids (example_state 1 1 5)))"
    "set (levelPairs (bids (example_state 1 1 5))) = {(99, 1), (98, 4)}"
    "total_d (snd (bids (example_state 1 1 5) ! 1)) =
       running_sum 0 (map snd (take 2 (levelPairs (bids (example_state 1 1 5)))))"
    using lb sb by (simp_all add: numeral_2_eq_2)
  from r da db a b five show ?thesis by simp
qed

text \<open>
  Claim C6 (delta and cursor updates in a \<open>Disconnected\<close> state), as stated, fails:
  \<open>handleDataUpdate\<close> and both cursor handlers start with
  \<open>assert(prevState.type === 'Connected')\<close>, so a \<open>Disconnected\<close> state is rejected.
\<close>

theorem disconnected_rejects_delta:
  "orderBookReducer (Some (Disconnected (example_state 1 1 5)))
     (DataUpdate \<lparr>upd_asks = [(102, 1)], upd_bids = []\<rparr>) = Inl AssertionError \<and>
   orderBookReducer (Some (Disconnected (example_state 1 1 5)))
     (UpdateBidsLastVisibleIndex 0) = Inl AssertionError"
  by (simp add: handler_defs)

text \<open>
  Claim C6, amended: in every \<open>Disconnected\<close> state a delta event and both cursor-update
  events fail with the assertion error; these handlers accept the \<open>Connected\<close> state
  only.
\<close>

theorem disconnected_asserts:
  "orderBookReducer (Some (Disconnected c)) (DataUpdate payload) = Inl AssertionError \<and>
   orderBookReducer (Some (Disconnected c)) (UpdateBidsLastVisibleIndex i) = Inl AssertionError \<and>
   orderBookReducer (Some (Disconnected c)) (UpdateAsksLastVisibleIndex i) = Inl AssertionError"
  by (simp add: handler_defs)

text \<open>
  Claim C7 (precondition violation): in the states \<open>NeverLoaded\<close> and
  \<open>ConnectedWaitingForData\<close> a delta event and both cursor-update events raise the
  assertion error; no state is returned.
\<close>

theorem not_loaded_asserts:
  "orderBookReducer (Some NeverLoaded) (DataUpdate payload) = Inl AssertionError \<and>
   orderBookReducer (Some NeverLoaded) (UpdateBidsLastVisibleIndex i) = Inl AssertionError \<and>
   orderBookReducer (Some NeverLoaded) (UpdateAsksLastVisibleIndex i) = Inl AssertionError \<and>
   orderBookReducer (Some ConnectedWaitingForData) (DataUpdate payload) = Inl AssertionError \<and>
   orderBookReducer (Some ConnectedWaitingForData) (UpdateBidsLastVisibleIndex i) =
     Inl AssertionError \<and>
   orderBookReducer (Some ConnectedWaitingForData) (UpdateAsksLastVisibleIndex i) =
     Inl AssertionError"
  by (simp add: handler_defs)

text \<open>
  Claim C8 (a delta that restates the collections), as stated, fails in two ways. The
  totals are never carried over but recomputed from the sizes: after a snapshot that
  lists the ask price 100 twice, the level at 100 holds the total 5 of both entries, and
  the restating delta replaces it by 2. And where a side is empty the transition throws
  (see C3).
\<close>

theorem noop_delta_counterexample:
  "handleSnapshotReceived duplicate_snapshot NeverLoaded = Connected (duplicate_state 5) \<and>
   handleDataUpdate
     \<lparr>upd_asks = levelPairs (asks (duplicate_state 5)),
      upd_bids = levelPairs (bids (duplicate_state 5))\<rparr> (Connected (duplicate_state 5)) =
     Inr (Connected (duplicate_state 2)) \<and>
   asks (duplicate_state 2) \<noteq> asks (duplicate_state 5) \<and>
   handleSnapshotReceived (example_snapshot\<lparr>snap_asks := []\<rparr>) NeverLoaded =
     Connected no_asks_state \<and>
   handleDataUpdate
     \<lparr>upd_asks = levelPairs (asks no_asks_state),
      upd_bids = levelPairs (bids no_asks_state)\<rparr> (Connected no_asks_state) = Inl TypeError"
  by (simp add: container_defs handler_defs example_defs levelPairs_def)

text \<open>
  Claim C8, amended: for every \<open>Connected\<close> state whose two collections are in
  aggregated form, a delta that restates the (price, size) pairs of both collections
  yields, whenever the transition succeeds, a \<open>Connected\<close> state with the same two
  collections; and the transition succeeds whenever both collections are non-empty and
  both cursors are at least 0.
\<close>

theorem noop_delta_keeps_collections:
  assumes "aggregated_asks (asks c)" and "aggregated_bids (bids c)"
    and "upd_asks payload = levelPairs (asks c)"
    and "upd_bids payload = levelPairs (bids c)"
  shows "(\<forall>s'. handleDataUpdate payload (Connected c) = Inr s' \<longrightarrow>
            (\<exists>c'. s' = Connected c' \<and> asks c' = asks c \<and> bids c' = bids c)) \<and>
         (asks c \<noteq> [] \<and> bids c \<noteq> [] \<and>
          0 \<le> lastVisibleAsksIndex (maxTotal c) \<and> 0 \<le> lastVisibleBidsIndex (maxTotal c) \<longrightarrow>
            (\<exists>c'. handleDataUpdate payload (Connected c) = Inr (Connected c') \<and>
                   asks c' = asks c \<and> bids c' = bids c))"
proof -
  have eq: "handleDataUpdate payload (Connected c) =
     (case maxVisibleTotal (bids c) (lastVisibleBidsIndex (maxTotal c))
             (asks c) (lastVisibleAsksIndex (maxTotal c)) of
        Inl e \<Rightarrow> Inl e
      | Inr t \<Rightarrow> Inr (Connected (c\<lparr>maxTotal := (maxTotal c)\<lparr>totalValue := t\<rparr>\<rparr>)))"
    using assms by (intro restating_delta) simp_all
  show ?thesis
  proof (intro conjI allI impI)
    fix s' assume "handleDataUpdate payload (Connected c) = Inr s'"
    then show "\<exists>c'. s' = Connected c' \<and> asks c' = asks c \<and> bids c' = bids c"
      by (auto simp: eq split: sum.splits)
  next
    assume "asks c \<noteq> [] \<and> bids c \<noteq> [] \<and>
      0 \<le> lastVisibleAsksIndex (maxTotal c) \<and> 0 \<le> lastVisibleBidsIndex (maxTotal c)"
    then obtain t where "maxVisibleTotal (bids c) (lastVisibleBidsIndex (maxTotal c))
             (asks c) (lastVisibleAsksIndex (maxTotal c)) = Inr t"
      using maxVisibleTotal_succeeds by blast
    then show "\<exists>c'. handleDataUpdate payload (Connected c) = Inr (Connected c') \<and>
        asks c' = asks c \<and> bids c' = bids c"
      by (simp add: eq)
  qed
qed

text \<open>
  The state of the example with its own pairs as delta.
\<close>

theorem noop_delta_keeps_collections_witness:
  "aggregated_asks (asks (example_state 1 1 5)) \<and> aggregated_bids (bids (example_state 1 1 5)) \<and>
   asks (example_state 1 1 5) \<noteq> [] \<and> bids (example_state 1 1 5) \<noteq> [] \<and>
   (\<exists>c'. handleDataUpdate
            \<lparr>upd_asks = [(100, 3), (101, 2)], upd_bids = [(99, 1), (98, 4)]\<rparr>
            (Connected (example_state 1 1 5)) = Inr (Connected c') \<and>
          asks c' = example_asks \<and> bids c' = example_bids)"
proof -
  have a: "aggregated_asks (asks (example_state 1 1 5))"
    and b: "aggregated_bids (bids (example_state 1 1 5))"
    using example_aggregated by (simp_all add: example_state_def)
  have pa: "upd_asks \<lparr>upd_asks = [(100, 3), (101, 2)], upd_bids = [(99, 1), (98, 4)]\<rparr> =
      levelPairs (asks (example_state 1 1 5))"
    and pb: "upd_bids \<lparr>upd_asks = [(100, 3), (101, 2)], upd_bids = [(99, 1), (98, 4)]\<rparr> =
      levelPairs (bids (example_state 1 1 5))"
    by (simp_all add: example_defs levelPairs_def)
  have ne: "asks (example_state 1 1 5) \<noteq> [] \<and> bids (example_state 1 1 5) \<noteq> [] \<and>
      0 \<le> lastVisibleAsksIndex (maxTotal (example_state 1 1 5)) \<and>
      0 \<le> lastVisibleBidsIndex (maxTotal (example_state 1 1 5))"
    by (simp add: example_defs)
  from noop_delta_keeps_collections [OF a b pa pb] ne a b show ?thesis
    by (simp add: example_state_def)
qed

text \<open>
  Claim C9 (frame of a delta): when a delta succeeds in a \<open>Connected\<close> state, the
  result is a \<open>Connected\<close> state with the same product id, number of levels and cursors;
  only the two collections and the scale may differ.
\<close>

theorem delta_frame:
  assumes "handleDataUpdate payload (Connected c) = Inr s'"
  shows "\<exists>c'. s' = Connected c' \<and> productId c' = productId c \<and> numLevels c' = numLevels c \<and>
     lastVisibleAsksIndex (maxTotal c') = lastVisibleAsksIndex (maxTotal c) \<and>
     lastVisibleBidsIndex (maxTotal c') = lastVisibleBidsIndex (maxTotal c) \<and>
     c' = c\<lparr>asks := asks c', bids := bids c',
            maxTotal := (maxTotal c)\<lparr>totalValue := totalValue (maxTotal c')\<rparr>\<rparr>"
  using assms by (auto simp: handleDataUpdate_def assert_def Let_def split: sum.splits)

text \<open>
  The delta of the example of the specification.
\<close>

theorem delta_frame_witness:
  "handleDataUpdate \<lparr>upd_asks = [(100, 0), (102, 1)], upd_bids = []\<rparr> (Connected (example_state 1 1 5)) =
   Inr (Connected ((example_state 1 1 5)
     \<lparr>asks := [(101, \<lparr>price = 101, size_d = 2, total_d = 2\<rparr>),
               (102, \<lparr>price = 102, size_d = 1, total_d = 3\<rparr>)]\<rparr>)) \<and>
   (\<exists>c'. Connected ((example_state 1 1 5)
     \<lparr>asks := [(101, \<lparr>price = 101, size_d = 2, total_d = 2\<rparr>),
               (102, \<lparr>price = 102, size_d = 1, total_d = 3\<rparr>)]\<rparr>) = Connected c' \<and>
      productId c' = ''PI_XBTUSD'' \<and> numLevels c' = 25 \<and>
      lastVisibleAsksIndex (maxTotal c') = 1 \<and> lastVisibleBidsIndex (maxTotal c') = 1)"
  using delta_frame [OF example_delta_result] example_delta_result
  by (simp add: example_defs)

text \<open>
  Claim C10 (empty snapshot): a snapshot whose ask and bid entries all have size 0
  (in particular, none at all), received in the state \<open>NeverLoaded\<close> or
  \<open>ConnectedWaitingForData\<close>, yields a \<open>Connected\<close> state with two empty collections,
  both cursors at -1 and scale 0.
\<close>

theorem empty_snapshot:
  assumes "\<forall>e \<in> set (snap_asks payload). snd e = 0"
    and "\<forall>e \<in> set (snap_bids payload). snd e = 0"
    and "prevState = NeverLoaded \<or> prevState = ConnectedWaitingForData"
  shows "orderBookReducer (Some prevState) (SnapshotReceived payload) =
     Inr (Connected
       \<lparr>asks = [], bids = [],
        productId = snap_product_id payload, numLevels = snap_numLevels payload,
        maxTotal = \<lparr>lastVisibleAsksIndex = - 1, lastVisibleBidsIndex = - 1, totalValue = 0\<rparr>\<rparr>)"
proof -
  have a: "foldl generateCalculatedOrderDetails \<lparr>total_acc = 0, map_acc = []\<rparr>
      (sort_ascending (snap_asks payload)) = \<lparr>total_acc = 0, map_acc = []\<rparr>"
    using assms(1) by (intro generate_zero) (simp add: sort_ascending_def)
  have b: "foldl generateCalculatedOrderDetails \<lparr>total_acc = 0, map_acc = []\<rparr>
      (sort_descending (snap_bids payload)) = \<lparr>total_acc = 0, map_acc = []\<rparr>"
    using assms(2) by (intro generate_zero) (simp add: sort_descending_def)
  from assms(3) show ?thesis
    by (auto simp: orderBookReducer_def handleSnapshotReceived_def a b Map_size_def)
qed

text \<open>
  A snapshot with two ask entries of size 0 and no bids.
\<close>

theorem empty_snapshot_witness:
  "orderBookReducer (Some ConnectedWaitingForData)
     (SnapshotReceived \<lparr>snap_product_id = ''PI_XBTUSD'', snap_numLevels = 25,
        snap_asks = [(100, 0 :: real), (101, 0)], snap_bids = []\<rparr>) =
     Inr (Connected
       \<lparr>asks = [], bids = [], productId = ''PI_XBTUSD'', numLevels = 25,
        maxTotal = \<lparr>lastVisibleAsksIndex = - 1, lastVisibleBidsIndex = - 1, totalValue = 0\<rparr>\<rparr>)"
  using empty_snapshot [of "\<lparr>snap_product_id = ''PI_XBTUSD'', snap_numLevels = 25,
        snap_asks = [(100, 0 :: real), (101, 0)], snap_bids = []\<rparr>" ConnectedWaitingForData]
  by simp

end
